theory Spec2Isabelle
  imports Main
begin

section \<open>Data model of the chat widget\<close>

text \<open>
  The global type declarations \<^verbatim>\<open>AppId\<close>, \<^verbatim>\<open>AppUser\<close> and \<^verbatim>\<open>AppPartyLog\<close> are not part
  of the sources; the records below carry the fields that the widget reads or writes.
  \<^verbatim>\<open>AppId\<close> is the type parameter \<open>'id\<close>, compared with \<^verbatim>\<open>===\<close>.
  A log carries its \<^verbatim>\<open>type\<close> tag and the two payload slots \<^verbatim>\<open>message\<close> and \<^verbatim>\<open>activity\<close>,
  either of which may be \<^verbatim>\<open>null\<close> (\<^verbatim>\<open>handleMessage\<close> builds a log with \<^verbatim>\<open>activity: null\<close>).
  A payload that is present has its user, as \<^verbatim>\<open>GroupedLog\<close> declares \<^verbatim>\<open>user: AppUser\<close>.
\<close>

datatype LogType = Activity | Message

record 'id AppUser =
  user_id :: 'id
  user_name :: string

record 'id AppPartyLogMessage =
  msg_id :: 'id
  msg_text :: string
  msg_user :: "'id AppUser"
  msg_created_at :: string
  msg_updated_at :: string

record 'id AppPartyLogActivity =
  act_text :: string
  act_user :: "'id AppUser"

record 'id AppPartyLog =
  log_id :: 'id
  party_id :: 'id
  log_type :: LogType
  message :: "'id AppPartyLogMessage option"
  activity :: "'id AppPartyLogActivity option"
  created_at :: string
  updated_at :: string

record 'id GroupedLog =
  group_type :: LogType
  group_user :: "'id AppUser"
  group_logs :: "'id AppPartyLog list"

text \<open>Reading a property of \<^verbatim>\<open>null\<close> or \<^verbatim>\<open>undefined\<close> throws.\<close>

datatype error = TypeError

section \<open>Grouping of party logs\<close>

text \<open>
  Modelled from the spec: the helper \<^verbatim>\<open>~/utils/last\<close> is not part of the sources. The spec
  speaks of "the currently open (last) group"; the helper returns the last element of
  the array, and \<^verbatim>\<open>undefined\<close> (here \<open>None\<close>) for the empty array.
\<close>

definition last_util :: "'a list \<Rightarrow> 'a option" where
  "last_util xs = (case xs of [] \<Rightarrow> None | _ # _ \<Rightarrow> Some (last xs))"

text \<open>\<^verbatim>\<open>log[log.type].user\<close>: the user of the payload slot that the type tag names.\<close>

definition payloadUser :: "'id AppPartyLog \<Rightarrow> error + 'id AppUser" where
  "payloadUser log =
     (case log_type log of
        Activity \<Rightarrow> (case activity log of None \<Rightarrow> Inl TypeError | Some a \<Rightarrow> Inr (act_user a))
      | Message \<Rightarrow> (case message log of None \<Rightarrow> Inl TypeError | Some m \<Rightarrow> Inr (msg_user m)))"

text \<open>
  The criterion of the \<^verbatim>\<open>if\<close> in the loop body, with the short-circuit evaluation of
  \<^verbatim>\<open>&&\<close> and \<^verbatim>\<open>||\<close>: \<^verbatim>\<open>log.message.user.id\<close> is read only when both types are
  \<^verbatim>\<open>'message'\<close>.
\<close>

definition fitsCriteria :: "'id GroupedLog \<Rightarrow> 'id AppPartyLog \<Rightarrow> error + bool" where
  "fitsCriteria recent log =
     (if log_type log = Activity \<and> group_type recent = log_type log then Inr True
      else if log_type log = Message \<and> group_type recent = log_type log then
        (case message log of
           None \<Rightarrow> Inl TypeError
         | Some m \<Rightarrow> Inr (user_id (group_user recent) = user_id (msg_user m)))
      else Inr False)"

text \<open>\<^verbatim>\<open>recent.logs.push(log)\<close>, where \<^verbatim>\<open>recent\<close> is the last element of \<^verbatim>\<open>groups\<close>.\<close>

definition pushToRecent :: "'id GroupedLog list \<Rightarrow> 'id AppPartyLog \<Rightarrow> 'id GroupedLog list" where
  "pushToRecent groups log =
     butlast groups @ [(last groups)\<lparr>group_logs := group_logs (last groups) @ [log]\<rparr>]"

text \<open>\<^verbatim>\<open>groups.push({ type: log.type, user: log[log.type].user, logs: [log] })\<close>.\<close>

definition pushNewGroup :: "'id GroupedLog list \<Rightarrow> 'id AppPartyLog \<Rightarrow> error + 'id GroupedLog list" where
  "pushNewGroup groups log =
     (case payloadUser log of
        Inl e \<Rightarrow> Inl e
      | Inr u \<Rightarrow> Inr (groups @ [\<lparr>group_type = log_type log, group_user = u, group_logs = [log]\<rparr>]))"

text \<open>One run of the callback given to \<^verbatim>\<open>forEach\<close>.\<close>

definition groupStep :: "'id GroupedLog list \<Rightarrow> 'id AppPartyLog \<Rightarrow> error + 'id GroupedLog list" where
  "groupStep groups log =
     (case last_util groups of
        None \<Rightarrow> Inl TypeError
      | Some recent \<Rightarrow>
          (case fitsCriteria recent log of
             Inl e \<Rightarrow> Inl e
           | Inr True \<Rightarrow> Inr (pushToRecent groups log)
           | Inr False \<Rightarrow> pushNewGroup groups log))"

text \<open>\<^verbatim>\<open>logs.slice(1).forEach(...)\<close>: the callback runs left to right; a throw ends the loop.\<close>

fun forEachLog :: "'id GroupedLog list \<Rightarrow> 'id AppPartyLog list \<Rightarrow> error + 'id GroupedLog list" where
  "forEachLog groups [] = Inr groups"
| "forEachLog groups (log # rest) =
     (case groupStep groups log of
        Inl e \<Rightarrow> Inl e
      | Inr groups' \<Rightarrow> forEachLog groups' rest)"

definition groupPartyLogs :: "'id AppPartyLog list \<Rightarrow> error + 'id GroupedLog list" where
  "groupPartyLogs logs =
     (case logs of
        [] \<Rightarrow> Inr []
      | first # rest \<Rightarrow>
          (case payloadUser first of
             Inl e \<Rightarrow> Inl e
           | Inr u \<Rightarrow>
               forEachLog
                 [\<lparr>group_type = log_type first, group_user = u, group_logs = [first]\<rparr>] rest))"

subsection \<open>The grouping as the specification words it\<close>

text \<open>
  An entry is well formed when the payload slot named by its type tag is present: the
  specification's \<open>LogEntry\<close> has a variant payload, a message payload for type
  \<^verbatim>\<open>message\<close> and an activity payload for type \<^verbatim>\<open>activity\<close>.
\<close>

definition wf_log :: "'id AppPartyLog \<Rightarrow> bool" where
  "wf_log log =
     (case log_type log of Activity \<Rightarrow> activity log \<noteq> None | Message \<Rightarrow> message log \<noteq> None)"

text \<open>The author (for an activity, the actor) of a well-formed entry.\<close>

definition spec_author :: "'id AppPartyLog \<Rightarrow> 'id AppUser" where
  "spec_author log =
     (case log_type log of
        Activity \<Rightarrow> act_user (the (activity log))
      | Message \<Rightarrow> msg_user (the (message log)))"

text \<open>"A singleton group tagged by its type and author."\<close>

definition spec_singleton :: "'id AppPartyLog \<Rightarrow> 'id GroupedLog" where
  "spec_singleton log =
     \<lparr>group_type = log_type log, group_user = spec_author log, group_logs = [log]\<rparr>"

text \<open>
  "If its type is activity and the open group's type is also activity, append to that
  group. If its type is message and the open group is message by the same author,
  append to that group."
\<close>

definition spec_joins :: "'id GroupedLog \<Rightarrow> 'id AppPartyLog \<Rightarrow> bool" where
  "spec_joins g log \<longleftrightarrow>
     log_type log = Activity \<and> group_type g = Activity \<or>
     log_type log = Message \<and> group_type g = Message \<and>
       user_id (group_user g) = user_id (spec_author log)"

text \<open>
  The incremental extension by one entry: compare it only against the last open group;
  with no group open, or when the criterion fails, open a new singleton group.
\<close>

definition spec_extend :: "'id GroupedLog list \<Rightarrow> 'id AppPartyLog \<Rightarrow> 'id GroupedLog list" where
  "spec_extend gs log =
     (if gs \<noteq> [] \<and> spec_joins (last gs) log
      then butlast gs @ [(last gs)\<lparr>group_logs := group_logs (last gs) @ [log]\<rparr>]
      else gs @ [spec_singleton log])"

text \<open>
  What holds of every group that the grouping builds: it has a member, its members have
  its type, and the members of a message group have a message of the group's author
  (authors are told apart by their id, as the criterion does).
\<close>

definition group_ok :: "'id GroupedLog \<Rightarrow> bool" where
  "group_ok g \<longleftrightarrow>
     group_logs g \<noteq> [] \<and>
     list_all (\<lambda>l. log_type l = group_type g) (group_logs g) \<and>
     (group_type g = Activity \<or>
      list_all
        (\<lambda>l. map_option (\<lambda>m. user_id (msg_user m)) (message l) = Some (user_id (group_user g)))
        (group_logs g))"

section \<open>The reducer of the chat widget\<close>

record ChatInput =
  input_text :: string

record 'id State =
  logs :: "'id AppPartyLog list"
  state_message :: ChatInput
  isSending :: "int \<rightharpoonup> string"
  isLoading :: bool

datatype 'id Action =
    RequestInit
  | RequestError
  | RequestSuccess "'id AppPartyLog list"
  | LogsPush "'id AppPartyLog"
  | ChatInputText string
  | ChatInit "'id AppPartyLog"
  | ChatSuccess 'id "'id AppPartyLog"
  | ChatError 'id

text \<open>
  \<^verbatim>\<open>Array.prototype.findIndex\<close>: the index of the first element that satisfies the
  predicate, and \<open>-1\<close> when there is none.
\<close>

fun findIndexFrom :: "('a \<Rightarrow> bool) \<Rightarrow> int \<Rightarrow> 'a list \<Rightarrow> int" where
  "findIndexFrom p k [] = - 1"
| "findIndexFrom p k (x # xs) = (if p x then k else findIndexFrom p (k + 1) xs)"

definition findIndex :: "('a \<Rightarrow> bool) \<Rightarrow> 'a list \<Rightarrow> int" where
  "findIndex p xs = findIndexFrom p 0 xs"

text \<open>
  The reducer. In the branch \<^verbatim>\<open>chat:success\<close> the write \<^verbatim>\<open>draft.logs[index] = log\<close> is
  not guarded: with \<^verbatim>\<open>index = -1\<close> it sets the property \<^verbatim>\<open>"-1"\<close> of the array, which is
  no element of it, so that every element and the length stay as they are; the model
  keeps the elements of the array, which is all the widget ever reads. Any other index
  that \<^verbatim>\<open>findIndex\<close> returns is a position of the array.
\<close>

fun reducer :: "'id State \<Rightarrow> 'id Action \<Rightarrow> 'id State" where
  "reducer state RequestInit = state\<lparr>isLoading := True\<rparr>"
| "reducer state (RequestSuccess ls) = state\<lparr>logs := ls, isLoading := False\<rparr>"
| "reducer state RequestError = state\<lparr>isLoading := False\<rparr>"
| "reducer state (LogsPush log) = state\<lparr>logs := logs state @ [log]\<rparr>"
| "reducer state (ChatInputText input) =
     state\<lparr>state_message := (state_message state)\<lparr>input_text := input\<rparr>\<rparr>"
| "reducer state (ChatInit log) =
     state\<lparr>state_message := (state_message state)\<lparr>input_text := []\<rparr>,
            logs := logs state @ [log]\<rparr>"
| "reducer state (ChatError i) = state"
| "reducer state (ChatSuccess i log) =
     (let index = findIndex (\<lambda>l. log_id l = i) (logs state)
      in if index = - 1 then state
         else state\<lparr>logs := (logs state)[nat index := log]\<rparr>)"

definition init :: "'id State" where
  "init = \<lparr>logs = [], state_message = \<lparr>input_text = []\<rparr>, isSending = Map.empty,
           isLoading = False\<rparr>"

section \<open>The event handlers of the chat widget\<close>

text \<open>
  What a handler does to the world, in the order in which it does it: writes to the two
  flags kept in refs, dispatches to the reducer, the two sounds, and the request
  \<^verbatim>\<open>axios.post(`/api/parties/${props.party.id}/logs/message`, body)\<close>, given by the id
  of the party and the fields of the body.
\<close>

datatype 'id effect =
    PreventDefault
  | SetIsReceiving bool
  | SetShouldScrollToBottom bool
  | Dispatch "'id Action"
  | PlaySendAudio
  | PlayIdleAudio
  | AxiosPostLogsMessage 'id "(string \<times> string) list"

text \<open>
  What \<^verbatim>\<open>handleMessage\<close> reads from its closure and from the world: \<^verbatim>\<open>isSubmittable\<close>
  (computed at render time from the text of the state), the state, \<^verbatim>\<open>props.party.id\<close>,
  \<^verbatim>\<open>auth.data\<close>, the results of the two calls of \<^verbatim>\<open>uuid()\<close> and of
  \<^verbatim>\<open>getStandardFormattedDateTime()\<close>, and the answer \<^verbatim>\<open>[err, res]\<close> of the server:
  \<open>Inl\<close> an error, \<open>Inr\<close> the \<^verbatim>\<open>res.data\<close>.
\<close>

record 'id SubmitEnv =
  isSubmittable :: bool
  env_state :: "'id State"
  env_party_id :: 'id
  auth_data :: "'id AppUser"
  uuid_first :: 'id
  uuid_second :: 'id
  date_now :: string
  response :: "string + 'id AppPartyLog"

text \<open>The log that \<^verbatim>\<open>handleMessage\<close> builds for the optimistic append.\<close>

definition pendingLog :: "'id SubmitEnv \<Rightarrow> 'id AppPartyLog" where
  "pendingLog env =
     \<lparr>log_id = uuid_first env,
      party_id = env_party_id env,
      log_type = Message,
      message = Some \<lparr>msg_id = uuid_second env,
                      msg_text = input_text (state_message (env_state env)),
                      msg_user = auth_data env,
                      msg_created_at = date_now env,
                      msg_updated_at = date_now env\<rparr>,
      activity = None,
      created_at = date_now env,
      updated_at = date_now env\<rparr>"

definition handleMessage :: "'id SubmitEnv \<Rightarrow> 'id effect list" where
  "handleMessage env =
     PreventDefault #
     (if \<not> isSubmittable env then []
      else
        [SetIsReceiving False,
         Dispatch (ChatInit (pendingLog env)),
         PlaySendAudio,
         AxiosPostLogsMessage (env_party_id env)
           [(''message'', input_text (state_message (env_state env)))],
         (case response env of
            Inl err \<Rightarrow> Dispatch (ChatError (uuid_first env))
          | Inr data \<Rightarrow> Dispatch (ChatSuccess (uuid_first env) data))])"

text \<open>
  The handler of the event \<^verbatim>\<open>log\<close> on the channel of the party, given
  \<^verbatim>\<open>isWindowVisible\<close>, the value of \<^verbatim>\<open>isScrolledToBottom(chatbarRef.current)\<close> and
  \<^verbatim>\<open>event.log\<close>.
\<close>

definition onPartyLog :: "bool \<Rightarrow> bool \<Rightarrow> 'id AppPartyLog \<Rightarrow> 'id effect list" where
  "onPartyLog isWindowVisible scrolledToBottom log =
     [SetIsReceiving True,
      SetShouldScrollToBottom scrolledToBottom,
      Dispatch (LogsPush log)] @
     (if \<not> isWindowVisible \<and> log_type log = Message then [PlayIdleAudio] else [])"

section \<open>The broadcast event of the party state\<close>

text \<open>
  The values of PHP that the event handles (floating-point numbers are left out). The
  model class \<^verbatim>\<open>App\Party\<close> is not part of the sources: a party is given by the three
  attributes that the event reads.
\<close>

datatype php_value =
    PNull
  | PBool bool
  | PInt int
  | PString string
  | PArray "(string \<times> php_value) list"

record Party =
  party_key :: php_value
  is_playing :: php_value
  current_time :: php_value

record PartyState =
  party :: Party

datatype channel = Channel string | PrivateChannel string

definition digit_char :: "nat \<Rightarrow> char" where
  "digit_char d = char_of (48 + d)"

fun nat_decimal :: "nat \<Rightarrow> string" where
  "nat_decimal n =
     (if n < 10 then [digit_char n] else nat_decimal (n div 10) @ [digit_char (n mod 10)])"

declare nat_decimal.simps [simp del]

definition int_decimal :: "int \<Rightarrow> string" where
  "int_decimal i = (if i < 0 then CHR ''-'' # nat_decimal (nat (- i)) else nat_decimal (nat i))"

text \<open>The conversion to a string that the operator \<^verbatim>\<open>.\<close> applies to its operands.\<close>

fun php_strval :: "php_value \<Rightarrow> string" where
  "php_strval PNull = []"
| "php_strval (PBool b) = (if b then ''1'' else [])"
| "php_strval (PInt i) = int_decimal i"
| "php_strval (PString s) = s"
| "php_strval (PArray kvs) = ''Array''"

definition broadcastOn :: "PartyState \<Rightarrow> channel" where
  "broadcastOn ev = PrivateChannel (''party.'' @ php_strval (party_key (party ev)))"

definition broadcastAs :: "PartyState \<Rightarrow> string" where
  "broadcastAs ev = ''state''"

definition broadcastWith :: "PartyState \<Rightarrow> (string \<times> php_value) list" where
  "broadcastWith ev =
     [(''state'',
       PArray [(''is_playing'', is_playing (party ev)),
               (''current_time'', current_time (party ev))])]"

section \<open>Reading a trace of effects\<close>

fun postedBodies :: "'id effect list \<Rightarrow> (string \<times> string) list list" where
  "postedBodies [] = []"
| "postedBodies (AxiosPostLogsMessage p body # es) = body # postedBodies es"
| "postedBodies (e # es) = postedBodies es"

fun dispatched :: "'id effect list \<Rightarrow> 'id Action list" where
  "dispatched [] = []"
| "dispatched (Dispatch a # es) = a # dispatched es"
| "dispatched (e # es) = dispatched es"

text \<open>
  A message of the user himself, by the test \<^verbatim>\<open>group.user.id === auth.data.id\<close> with which
  the widget renders a group as \<^verbatim>\<open>is-self\<close>.
\<close>

definition isOwnMessage :: "'id AppUser \<Rightarrow> 'id AppPartyLog \<Rightarrow> bool" where
  "isOwnMessage auth log \<longleftrightarrow>
     log_type log = Message \<and>
     map_option (\<lambda>m. user_id (msg_user m)) (message log) = Some (user_id auth)"

section \<open>Sample data\<close>

definition userA :: "nat AppUser" where
  "userA = \<lparr>user_id = 1, user_name = ''A''\<rparr>"

definition userU1 :: "nat AppUser" where
  "userU1 = \<lparr>user_id = 2, user_name = ''U1''\<rparr>"

definition userU2 :: "nat AppUser" where
  "userU2 = \<lparr>user_id = 3, user_name = ''U2''\<rparr>"

definition activityLog :: "nat \<Rightarrow> nat AppUser \<Rightarrow> nat AppPartyLog" where
  "activityLog i u =
     \<lparr>log_id = i, party_id = 7, log_type = Activity, message = None,
      activity = Some \<lparr>act_text = ''joined the room'', act_user = u\<rparr>,
      created_at = ''2019-06-01 12:00:00'', updated_at = ''2019-06-01 12:00:00''\<rparr>"

definition messageLog :: "nat \<Rightarrow> nat AppUser \<Rightarrow> string \<Rightarrow> nat AppPartyLog" where
  "messageLog i u t =
     \<lparr>log_id = i, party_id = 7, log_type = Message,
      message = Some \<lparr>msg_id = 100 + i, msg_text = t, msg_user = u,
                      msg_created_at = ''2019-06-01 12:00:00'',
                      msg_updated_at = ''2019-06-01 12:00:00''\<rparr>,
      activity = None,
      created_at = ''2019-06-01 12:00:00'', updated_at = ''2019-06-01 12:00:00''\<rparr>"

definition sampleEnv :: "nat SubmitEnv" where
  "sampleEnv =
     \<lparr>isSubmittable = True,
      env_state = \<lparr>logs = [activityLog 10 userA], state_message = \<lparr>input_text = ''hello''\<rparr>,
                   isSending = Map.empty, isLoading = False\<rparr>,
      env_party_id = 7,
      auth_data = userU1,
      uuid_first = 501,
      uuid_second = 502,
      date_now = ''2019-06-01 12:00:05'',
      response = Inr (messageLog 20 userU1 ''hello'')\<rparr>"

text \<open>The state of the sample submission after its optimistic append.\<close>

definition sampleState :: "nat State" where
  "sampleState = reducer (env_state sampleEnv) (ChatInit (pendingLog sampleEnv))"

definition sampleEvent :: PartyState where
  "sampleEvent =
     \<lparr>party = \<lparr>party_key = PInt 42, is_playing = PBool True, current_time = PInt 90\<rparr>\<rparr>"

section \<open>Facts about the sample data\<close>

lemma sample_fields:
  "log_id (activityLog i u) = i"
  "log_type (activityLog i u) = Activity"
  "activity (activityLog i u) = Some \<lparr>act_text = ''joined the room'', act_user = u\<rparr>"
  "log_id (messageLog i u t) = i"
  "log_type (messageLog i u t) = Message"
  "message (messageLog i u t) =
     Some \<lparr>msg_id = 100 + i, msg_text = t, msg_user = u,
           msg_created_at = ''2019-06-01 12:00:00'',
           msg_updated_at = ''2019-06-01 12:00:00''\<rparr>"
  "user_id userA = 1" "user_id userU1 = 2" "user_id userU2 = 3"
  by (simp_all add: activityLog_def messageLog_def userA_def userU1_def userU2_def)

lemma sample_wf: "wf_log (activityLog i u)" "wf_log (messageLog i u t)"
  by (simp_all add: wf_log_def sample_fields)

section \<open>The grouping on well-formed entries\<close>

lemma payloadUser_wf: "wf_log log \<Longrightarrow> payloadUser log = Inr (spec_author log)"
  by (auto simp: wf_log_def payloadUser_def spec_author_def split: LogType.splits option.splits)

lemma fitsCriteria_wf: "wf_log log \<Longrightarrow> fitsCriteria recent log = Inr (spec_joins recent log)"
  by (cases "log_type log"; cases "group_type recent")
     (auto simp: wf_log_def fitsCriteria_def spec_joins_def spec_author_def split: option.splits)

lemma groupStep_wf:
  "wf_log log \<Longrightarrow> gs \<noteq> [] \<Longrightarrow> groupStep gs log = Inr (spec_extend gs log)"
  by (cases gs)
     (auto simp: groupStep_def last_util_def fitsCriteria_wf pushNewGroup_def payloadUser_wf
        pushToRecent_def spec_extend_def spec_singleton_def)

lemma spec_extend_not_Nil: "spec_extend gs log \<noteq> []"
  by (simp add: spec_extend_def)

lemma forEachLog_wf:
  "list_all wf_log rest \<Longrightarrow> gs \<noteq> [] \<Longrightarrow> forEachLog gs rest = Inr (foldl spec_extend gs rest)"
  by (induction rest arbitrary: gs) (simp_all add: groupStep_wf spec_extend_not_Nil)

lemma groupPartyLogs_wf:
  "list_all wf_log entries \<Longrightarrow> groupPartyLogs entries = Inr (foldl spec_extend [] entries)"
  by (cases entries)
     (simp_all add: groupPartyLogs_def payloadUser_wf forEachLog_wf spec_extend_def
        spec_singleton_def)

lemma forEachLog_snoc:
  "forEachLog gs (xs @ [log]) =
     (case forEachLog gs xs of Inl e \<Rightarrow> Inl e | Inr gs' \<Rightarrow> groupStep gs' log)"
  by (induction xs arbitrary: gs) (auto split: sum.splits)

lemma groupStep_not_Nil: "groupStep gs log = Inr gs' \<Longrightarrow> gs' \<noteq> []"
  by (auto simp: groupStep_def pushToRecent_def pushNewGroup_def
      split: option.splits sum.splits bool.splits)

lemma forEachLog_not_Nil: "forEachLog gs xs = Inr gs' \<Longrightarrow> gs \<noteq> [] \<Longrightarrow> gs' \<noteq> []"
  by (induction xs arbitrary: gs) (auto split: sum.splits dest: groupStep_not_Nil)

text \<open>
  C1. For a non-empty list of well-formed entries the grouping returns, and its result
  is the left-to-right run that starts from the singleton group of the first entry and
  takes each later entry into the last group exactly when the criterion of the
  specification holds (both of type activity, or both of type message with the same
  author), and otherwise opens a new singleton group behind it.
\<close>

theorem groupPartyLogs_left_to_right:
  assumes "list_all wf_log (first # rest)"
  shows "groupPartyLogs (first # rest) = Inr (foldl spec_extend [spec_singleton first] rest)"
  using assms by (simp add: groupPartyLogs_def payloadUser_wf forEachLog_wf spec_singleton_def)

theorem groupPartyLogs_left_to_right_witness:
  "list_all wf_log
     [activityLog 11 userA, messageLog 12 userU1 ''hi'', messageLog 13 userU1 ''yo''] \<and>
   groupPartyLogs
     [activityLog 11 userA, messageLog 12 userU1 ''hi'', messageLog 13 userU1 ''yo''] =
     Inr [\<lparr>group_type = Activity, group_user = userA, group_logs = [activityLog 11 userA]\<rparr>,
          \<lparr>group_type = Message, group_user = userU1,
             group_logs = [messageLog 12 userU1 ''hi'', messageLog 13 userU1 ''yo'']\<rparr>]"
proof -
  have h: "list_all wf_log
     [activityLog 11 userA, messageLog 12 userU1 ''hi'', messageLog 13 userU1 ''yo'']"
    by (simp add: sample_wf)
  show ?thesis
    using h groupPartyLogs_left_to_right [OF h]
    by (simp add: spec_extend_def spec_joins_def spec_singleton_def spec_author_def
        sample_fields)
qed

text \<open>
  C2. For two activity entries followed by two messages of one author and one message
  of another author, the grouping returns exactly three groups, in this order: the
  activity group of the first two entries, the message group of the next two with their
  author, and the message group of the last entry with its author.
\<close>

theorem groupPartyLogs_example:
  assumes "log_type e1 = Activity" "activity e1 = Some a1"
    and "log_type e2 = Activity"
    and "log_type e3 = Message" "message e3 = Some m3"
    and "log_type e4 = Message" "message e4 = Some m4"
    and "log_type e5 = Message" "message e5 = Some m5"
    and "user_id (msg_user m4) = user_id (msg_user m3)"
    and "user_id (msg_user m5) \<noteq> user_id (msg_user m3)"
  shows "groupPartyLogs [e1, e2, e3, e4, e5] =
     Inr [\<lparr>group_type = Activity, group_user = act_user a1, group_logs = [e1, e2]\<rparr>,
          \<lparr>group_type = Message, group_user = msg_user m3, group_logs = [e3, e4]\<rparr>,
          \<lparr>group_type = Message, group_user = msg_user m5, group_logs = [e5]\<rparr>]"
  using assms
  by (simp add: groupPartyLogs_def payloadUser_def groupStep_def last_util_def fitsCriteria_def
      pushToRecent_def pushNewGroup_def)

theorem groupPartyLogs_example_witness:
  "groupPartyLogs
     [activityLog 11 userA, activityLog 12 userA, messageLog 13 userU1 ''hi'',
      messageLog 14 userU1 ''yo'', messageLog 15 userU2 ''hey''] =
     Inr [\<lparr>group_type = Activity, group_user = userA,
             group_logs = [activityLog 11 userA, activityLog 12 userA]\<rparr>,
          \<lparr>group_type = Message, group_user = userU1,
             group_logs = [messageLog 13 userU1 ''hi'', messageLog 14 userU1 ''yo'']\<rparr>,
          \<lparr>group_type = Message, group_user = userU2,
             group_logs = [messageLog 15 userU2 ''hey'']\<rparr>]"
  using groupPartyLogs_example
    [of "activityLog 11 userA" "\<lparr>act_text = ''joined the room'', act_user = userA\<rparr>"
        "activityLog 12 userA"
        "messageLog 13 userU1 ''hi''" "the (message (messageLog 13 userU1 ''hi''))"
        "messageLog 14 userU1 ''yo''" "the (message (messageLog 14 userU1 ''yo''))"
        "messageLog 15 userU2 ''hey''" "the (message (messageLog 15 userU2 ''hey''))"]
  by (simp add: sample_fields)

text \<open>
  C3. For every list of entries and every well-formed new entry, grouping the list
  extended by the entry gives what the incremental extension gives from the groups of
  the list: the entry is compared with the last group only, joins it when the criterion
  holds and opens a new singleton group otherwise; where grouping the list throws,
  grouping the extended list throws too.
\<close>

theorem groupPartyLogs_snoc:
  assumes "wf_log log"
  shows "groupPartyLogs (entries @ [log]) =
     (case groupPartyLogs entries of Inl e \<Rightarrow> Inl e | Inr gs \<Rightarrow> Inr (spec_extend gs log))"
proof (cases entries)
  case Nil
  with assms show ?thesis
    by (simp add: groupPartyLogs_def payloadUser_wf spec_extend_def spec_singleton_def)
next
  case (Cons first rest)
  show ?thesis
  proof (cases "payloadUser first")
    case (Inl e)
    with Cons show ?thesis by (simp add: groupPartyLogs_def)
  next
    case (Inr u)
    with Cons assms show ?thesis
      by (auto simp: groupPartyLogs_def forEachLog_snoc groupStep_wf
          split: sum.splits dest!: forEachLog_not_Nil)
  qed
qed

theorem groupPartyLogs_snoc_witness:
  "wf_log (messageLog 14 userU2 ''hey'') \<and>
   groupPartyLogs
     ([activityLog 11 userA, messageLog 12 userU1 ''hi'', messageLog 13 userU1 ''yo''] @
      [messageLog 14 userU2 ''hey'']) =
     Inr [\<lparr>group_type = Activity, group_user = userA, group_logs = [activityLog 11 userA]\<rparr>,
          \<lparr>group_type = Message, group_user = userU1,
             group_logs = [messageLog 12 userU1 ''hi'', messageLog 13 userU1 ''yo'']\<rparr>,
          \<lparr>group_type = Message, group_user = userU2,
             group_logs = [messageLog 14 userU2 ''hey'']\<rparr>]"
proof -
  have h: "wf_log (messageLog 14 userU2 ''hey'')"
    by (rule sample_wf)
  have l: "list_all wf_log
     [activityLog 11 userA, messageLog 12 userU1 ''hi'', messageLog 13 userU1 ''yo'']"
    by (simp add: sample_wf)
  show ?thesis
    using h groupPartyLogs_snoc [OF h,
        of "[activityLog 11 userA, messageLog 12 userU1 ''hi'', messageLog 13 userU1 ''yo'']"]
    by (simp add: groupPartyLogs_wf [OF l] spec_extend_def spec_joins_def spec_singleton_def
        spec_author_def sample_fields)
qed

section \<open>The groups partition the entries\<close>

lemma fitsCriteria_True:
  assumes "fitsCriteria recent log = Inr True" "group_ok recent"
  shows "group_ok (recent\<lparr>group_logs := group_logs recent @ [log]\<rparr>)"
  using assms
  by (cases "log_type log"; cases "group_type recent")
     (auto simp: fitsCriteria_def group_ok_def split: option.splits)

lemma payloadUser_ok:
  assumes "payloadUser log = Inr u"
  shows "group_ok \<lparr>group_type = log_type log, group_user = u, group_logs = [log]\<rparr>"
  using assms
  by (cases "log_type log") (auto simp: payloadUser_def group_ok_def split: option.splits)

lemma groupStep_ok:
  assumes "groupStep gs log = Inr gs'" "list_all group_ok gs"
  shows "list_all group_ok gs' \<and>
         concat (map group_logs gs') = concat (map group_logs gs) @ [log]"
proof (cases gs rule: rev_cases)
  case Nil
  with assms(1) show ?thesis by (simp add: groupStep_def last_util_def)
next
  case (snoc bs recent)
  then have last: "last_util gs = Some recent"
    by (cases bs) (simp_all add: last_util_def)
  from assms(2) snoc have ok: "list_all group_ok bs" "group_ok recent" by simp_all
  show ?thesis
  proof (cases "fitsCriteria recent log")
    case (Inl e)
    with assms(1) last show ?thesis by (simp add: groupStep_def)
  next
    case (Inr fits)
    show ?thesis
    proof (cases fits)
      case True
      with Inr assms(1) last snoc
      have "gs' = bs @ [recent\<lparr>group_logs := group_logs recent @ [log]\<rparr>]"
        by (simp add: groupStep_def pushToRecent_def)
      moreover from True Inr ok(2)
      have "group_ok (recent\<lparr>group_logs := group_logs recent @ [log]\<rparr>)"
        by (simp add: fitsCriteria_True)
      ultimately show ?thesis using ok(1) snoc by simp
    next
      case False
      with Inr assms(1) last have new: "pushNewGroup gs log = Inr gs'"
        by (simp add: groupStep_def)
      then obtain u where u: "payloadUser log = Inr u"
        "gs' = gs @ [\<lparr>group_type = log_type log, group_user = u, group_logs = [log]\<rparr>]"
        by (auto simp: pushNewGroup_def split: sum.splits)
      with assms(2) show ?thesis by (simp add: payloadUser_ok)
    qed
  qed
qed

lemma forEachLog_ok:
  "forEachLog gs rest = Inr gs' \<Longrightarrow> list_all group_ok gs \<Longrightarrow>
   list_all group_ok gs' \<and> concat (map group_logs gs') = concat (map group_logs gs) @ rest"
proof (induction rest arbitrary: gs)
  case Nil
  then show ?case by simp
next
  case (Cons log rest)
  from Cons.prems(1) obtain gs1 where
    step: "groupStep gs log = Inr gs1" and run: "forEachLog gs1 rest = Inr gs'"
    by (auto split: sum.splits)
  from groupStep_ok [OF step Cons.prems(2)] Cons.IH [OF run] show ?case by simp
qed

lemma groupPartyLogs_ok:
  assumes "groupPartyLogs entries = Inr gs"
  shows "list_all group_ok gs \<and> concat (map group_logs gs) = entries"
proof (cases entries)
  case Nil
  with assms show ?thesis by (simp add: groupPartyLogs_def)
next
  case (Cons first rest)
  with assms obtain u where u: "payloadUser first = Inr u"
    and run: "forEachLog [\<lparr>group_type = log_type first, group_user = u, group_logs = [first]\<rparr>]
                rest = Inr gs"
    by (auto simp: groupPartyLogs_def split: sum.splits)
  from forEachLog_ok [OF run] payloadUser_ok [OF u] Cons show ?thesis by simp
qed

lemma group_ok_unfolded:
  assumes "group_ok g"
  shows "group_logs g \<noteq> [] \<and>
     (\<forall>l\<in>set (group_logs g). log_type l = group_type g) \<and>
     (group_type g = Message \<longrightarrow>
        (\<forall>l\<in>set (group_logs g).
           \<exists>m. message l = Some m \<and> user_id (msg_user m) = user_id (group_user g)))"
  using assms by (auto simp: group_ok_def list_all_iff)

text \<open>
  C9. For every list of entries, whenever the grouping returns, the members of the
  returned groups, concatenated in order, are exactly the input list; every group has a
  member, all members of a group have the type of the group, and every member of a
  message group has a message of the group's author (the same user id). On well-formed
  entries the grouping does return, and the empty list yields the empty list of groups.
\<close>

theorem groupPartyLogs_partition:
  "(list_all wf_log entries \<longrightarrow> (\<exists>gs. groupPartyLogs entries = Inr gs)) \<and>
   (\<forall>gs. groupPartyLogs entries = Inr gs \<longrightarrow>
      concat (map group_logs gs) = entries \<and>
      (\<forall>g\<in>set gs.
         group_logs g \<noteq> [] \<and>
         (\<forall>l\<in>set (group_logs g). log_type l = group_type g) \<and>
         (group_type g = Message \<longrightarrow>
            (\<forall>l\<in>set (group_logs g).
               \<exists>m. message l = Some m \<and> user_id (msg_user m) = user_id (group_user g))))) \<and>
   groupPartyLogs ([] :: 'id AppPartyLog list) = Inr []"
proof (intro conjI allI impI)
  assume "list_all wf_log entries"
  then show "\<exists>gs. groupPartyLogs entries = Inr gs"
    by (simp add: groupPartyLogs_wf)
next
  fix gs assume "groupPartyLogs entries = Inr gs"
  then show "concat (map group_logs gs) = entries"
    by (simp add: groupPartyLogs_ok)
next
  fix gs assume "groupPartyLogs entries = Inr gs"
  then have "list_all group_ok gs" by (simp add: groupPartyLogs_ok)
  then show "\<forall>g\<in>set gs.
         group_logs g \<noteq> [] \<and>
         (\<forall>l\<in>set (group_logs g). log_type l = group_type g) \<and>
         (group_type g = Message \<longrightarrow>
            (\<forall>l\<in>set (group_logs g).
               \<exists>m. message l = Some m \<and> user_id (msg_user m) = user_id (group_user g)))"
    by (auto simp: list_all_iff dest!: group_ok_unfolded)
next
  show "groupPartyLogs ([] :: 'id AppPartyLog list) = Inr []"
    by (simp add: groupPartyLogs_def)
qed

theorem groupPartyLogs_partition_witness:
  "list_all wf_log
     [activityLog 11 userA, messageLog 12 userU1 ''hi'', messageLog 13 userU2 ''hey''] \<and>
   groupPartyLogs
     [activityLog 11 userA, messageLog 12 userU1 ''hi'', messageLog 13 userU2 ''hey''] =
     Inr [\<lparr>group_type = Activity, group_user = userA, group_logs = [activityLog 11 userA]\<rparr>,
          \<lparr>group_type = Message, group_user = userU1,
             group_logs = [messageLog 12 userU1 ''hi'']\<rparr>,
          \<lparr>group_type = Message, group_user = userU2,
             group_logs = [messageLog 13 userU2 ''hey'']\<rparr>] \<and>
   concat (map group_logs
     [\<lparr>group_type = Activity, group_user = userA, group_logs = [activityLog 11 userA]\<rparr>,
      \<lparr>group_type = Message, group_user = userU1,
         group_logs = [messageLog 12 userU1 ''hi'']\<rparr>,
      \<lparr>group_type = Message, group_user = userU2,
         group_logs = [messageLog 13 userU2 ''hey'']\<rparr>]) =
     [activityLog 11 userA, messageLog 12 userU1 ''hi'', messageLog 13 userU2 ''hey'']"
proof -
  let ?es = "[activityLog 11 userA, messageLog 12 userU1 ''hi'', messageLog 13 userU2 ''hey'']"
  have h: "list_all wf_log ?es"
    by (simp add: sample_wf)
  have run: "groupPartyLogs ?es =
     Inr [\<lparr>group_type = Activity, group_user = userA, group_logs = [activityLog 11 userA]\<rparr>,
          \<lparr>group_type = Message, group_user = userU1,
             group_logs = [messageLog 12 userU1 ''hi'']\<rparr>,
          \<lparr>group_type = Message, group_user = userU2,
             group_logs = [messageLog 13 userU2 ''hey'']\<rparr>]"
    by (simp add: groupPartyLogs_wf [OF h] spec_extend_def spec_joins_def spec_singleton_def
        spec_author_def sample_fields)
  from groupPartyLogs_partition [of ?es] run have "concat (map group_logs
     [\<lparr>group_type = Activity, group_user = userA, group_logs = [activityLog 11 userA]\<rparr>,
      \<lparr>group_type = Message, group_user = userU1,
         group_logs = [messageLog 12 userU1 ''hi'']\<rparr>,
      \<lparr>group_type = Message, group_user = userU2,
         group_logs = [messageLog 13 userU2 ''hey'']\<rparr>]) = ?es"
    by blast
  with h run show ?thesis by blast
qed

section \<open>The reducer\<close>

lemma findIndexFrom_none:
  "\<forall>x\<in>set xs. \<not> p x \<Longrightarrow> findIndexFrom p k xs = - 1"
  by (induction xs arbitrary: k) simp_all

lemma findIndexFrom_first:
  "\<exists>x\<in>set xs. p x \<Longrightarrow>
   \<exists>n<length xs. findIndexFrom p k xs = k + int n \<and> p (xs ! n) \<and> (\<forall>j<n. \<not> p (xs ! j))"
proof (induction xs arbitrary: k)
  case Nil
  then show ?case by simp
next
  case (Cons x xs)
  show ?case
  proof (cases "p x")
    case True
    then show ?thesis by (intro exI [of _ 0]) simp
  next
    case False
    with Cons.prems have "\<exists>x\<in>set xs. p x" by simp
    from Cons.IH [OF this, of "k + 1"] obtain n where
      n: "n < length xs" "findIndexFrom p (k + 1) xs = k + 1 + int n" "p (xs ! n)"
        "\<forall>j<n. \<not> p (xs ! j)"
      by blast
    have "\<forall>j<Suc n. \<not> p ((x # xs) ! j)"
      using False n(4) by (auto simp: less_Suc_eq_0_disj)
    with False n show ?thesis
      by (intro exI [of _ "Suc n"]) simp
  qed
qed

lemma findIndex_first:
  "\<exists>x\<in>set xs. p x \<Longrightarrow>
   \<exists>n<length xs. findIndex p xs = int n \<and> p (xs ! n) \<and> (\<forall>j<n. \<not> p (xs ! j))"
  using findIndexFrom_first [of xs p 0] by (simp add: findIndex_def)

lemma findIndex_none: "\<forall>x\<in>set xs. \<not> p x \<Longrightarrow> findIndex p xs = - 1"
  by (simp add: findIndex_def findIndexFrom_none)

text \<open>With no entry of the id in the logs, the unguarded write changes no element.\<close>

lemma chat_success_missing_id:
  "\<forall>l\<in>set (logs s). log_id l \<noteq> i \<Longrightarrow> reducer s (ChatSuccess i new) = s"
  by (simp add: findIndex_none)

lemma sample_pending:
  "logs sampleState = [activityLog 10 userA, pendingLog sampleEnv]"
  "log_id (pendingLog sampleEnv) = 501"
  by (simp_all add: sampleState_def sampleEnv_def pendingLog_def)

text \<open>
  C7. When the action \<^verbatim>\<open>chat:success\<close> arrives and an entry of the logs has the id of the
  action, the reducer puts the authoritative entry at the position of the first entry
  with that id, found by its id; every other position keeps its entry, the length of the
  logs and the order of the entries stay as they are, and so does the rest of the state.
\<close>

theorem chat_success_replaces_by_id:
  fixes s :: "'id State"
  assumes "\<exists>l\<in>set (logs s). log_id l = i"
  shows "\<exists>k<length (logs s).
           log_id (logs s ! k) = i \<and> (\<forall>j<k. log_id (logs s ! j) \<noteq> i) \<and>
           reducer s (ChatSuccess i new) = s\<lparr>logs := (logs s)[k := new]\<rparr> \<and>
           logs (reducer s (ChatSuccess i new)) ! k = new \<and>
           (\<forall>j<length (logs s). j \<noteq> k \<longrightarrow>
              logs (reducer s (ChatSuccess i new)) ! j = logs s ! j) \<and>
           length (logs (reducer s (ChatSuccess i new))) = length (logs s)"
proof -
  from findIndex_first [of "logs s" "\<lambda>l. log_id l = i"] assms obtain k where
    k: "k < length (logs s)" "findIndex (\<lambda>l. log_id l = i) (logs s) = int k"
      "log_id (logs s ! k) = i" "\<forall>j<k. log_id (logs s ! j) \<noteq> i"
    by blast
  have "reducer s (ChatSuccess i new) = s\<lparr>logs := (logs s)[k := new]\<rparr>"
    using k(2) by simp
  with k show ?thesis by (intro exI [of _ k]) simp
qed

theorem chat_success_replaces_by_id_witness:
  "(\<exists>l\<in>set (logs sampleState). log_id l = 501) \<and>
   logs (reducer sampleState (ChatSuccess 501 (messageLog 20 userU1 ''hello''))) =
     [activityLog 10 userA, messageLog 20 userU1 ''hello'']"
proof -
  let ?s = sampleState
  let ?new = "messageLog 20 userU1 ''hello''"
  have h: "\<exists>l\<in>set (logs ?s). log_id l = 501"
    by (simp add: sample_pending)
  from chat_success_replaces_by_id [OF h, of ?new] obtain k where
    k: "k < length (logs ?s)" "log_id (logs ?s ! k) = 501"
      "reducer ?s (ChatSuccess 501 ?new) = ?s\<lparr>logs := (logs ?s)[k := ?new]\<rparr>"
    by blast
  from k(1) have "k = 0 \<or> k = 1"
    by (auto simp: sample_pending)
  with k(2) have "k = 1"
    by (auto simp: sample_pending sample_fields)
  with k(3) have "logs (reducer ?s (ChatSuccess 501 ?new)) = [activityLog 10 userA, ?new]"
    by (simp add: sample_pending)
  with h show ?thesis by blast
qed

text \<open>
  C8. For every state the action \<^verbatim>\<open>chat:error\<close> leaves the state as it is, field by field;
  so after \<^verbatim>\<open>chat:init\<close> and \<^verbatim>\<open>chat:error\<close> the pending entry is still the last entry of the
  logs.
\<close>

theorem chat_error_unchanged:
  "reducer s (ChatError i) = s \<and>
   logs (reducer (reducer s (ChatInit pending)) (ChatError i)) = logs s @ [pending]"
  by simp

text \<open>
  C10. The branch \<^verbatim>\<open>chat:success\<close> writes at the index that \<^verbatim>\<open>findIndex\<close> returns, with no
  guard. When an entry of the logs has the id of the action, that index is not \<open>-1\<close>: it
  is a position of the logs, and the write replaces the entry at that position.
\<close>

theorem chat_success_index_in_bounds:
  fixes s :: "'id State"
  assumes "\<exists>l\<in>set (logs s). log_id l = i"
  shows "findIndex (\<lambda>l. log_id l = i) (logs s) \<noteq> - 1 \<and>
         0 \<le> findIndex (\<lambda>l. log_id l = i) (logs s) \<and>
         findIndex (\<lambda>l. log_id l = i) (logs s) < int (length (logs s)) \<and>
         reducer s (ChatSuccess i new) =
           s\<lparr>logs := (logs s)[nat (findIndex (\<lambda>l. log_id l = i) (logs s)) := new]\<rparr>"
proof -
  from findIndex_first [of "logs s" "\<lambda>l. log_id l = i"] assms obtain k where
    k: "k < length (logs s)" "findIndex (\<lambda>l. log_id l = i) (logs s) = int k"
    by blast
  then show ?thesis by simp
qed

theorem chat_success_index_in_bounds_witness:
  "(\<exists>l\<in>set (logs sampleState). log_id l = 501) \<and>
   0 \<le> findIndex (\<lambda>l. log_id l = 501) (logs sampleState) \<and>
   findIndex (\<lambda>l. log_id l = 501) (logs sampleState) < 2"
proof -
  let ?s = sampleState
  have h: "\<exists>l\<in>set (logs ?s). log_id l = 501"
    by (simp add: sample_pending)
  have "int (length (logs ?s)) = 2"
    by (simp add: sample_pending)
  with h chat_success_index_in_bounds [OF h, of "messageLog 20 userU1 ''hello''"]
  show ?thesis by simp
qed

section \<open>The handlers\<close>

text \<open>
  C4, as the code has it. A submission that passes the guard sends one request, whose
  body has the single field \<^verbatim>\<open>message\<close> with the text of the input; the id that the
  client generates is not sent. It is the id of the optimistic entry of \<^verbatim>\<open>chat:init\<close> and
  comes back in the action \<^verbatim>\<open>chat:success\<close> or \<^verbatim>\<open>chat:error\<close> that the client dispatches to
  itself.
\<close>

theorem handleMessage_posts_text_only:
  assumes "isSubmittable env"
  shows "postedBodies (handleMessage env) =
           [[(''message'', input_text (state_message (env_state env)))]] \<and>
         dispatched (handleMessage env) =
           [ChatInit (pendingLog env),
            (case response env of
               Inl err \<Rightarrow> ChatError (uuid_first env)
             | Inr data \<Rightarrow> ChatSuccess (uuid_first env) data)] \<and>
         log_id (pendingLog env) = uuid_first env"
  using assms by (simp add: handleMessage_def pendingLog_def split: sum.splits)

theorem handleMessage_posts_text_only_witness:
  "isSubmittable sampleEnv \<and>
   postedBodies (handleMessage sampleEnv) = [[(''message'', ''hello'')]] \<and>
   dispatched (handleMessage sampleEnv) =
     [ChatInit (pendingLog sampleEnv), ChatSuccess 501 (messageLog 20 userU1 ''hello'')] \<and>
   log_id (pendingLog sampleEnv) = 501"
proof -
  have h: "isSubmittable sampleEnv" by (simp add: sampleEnv_def)
  from handleMessage_posts_text_only [OF h] show ?thesis by (simp add: sampleEnv_def)
qed

text \<open>
  The request of the sample submission: the only field of its body is \<^verbatim>\<open>message\<close>, so the
  body has no field \<^verbatim>\<open>id\<close>.
\<close>

theorem handleMessage_id_not_posted:
  "isSubmittable sampleEnv \<and>
   map fst (concat (postedBodies (handleMessage sampleEnv))) = [''message''] \<and>
   map_of (concat (postedBodies (handleMessage sampleEnv))) ''id'' = None"
  by (simp add: sampleEnv_def handleMessage_def)

text \<open>
  C5, as the code has it. The handler of an incoming log plays the idle sound exactly
  when the window is not visible and the log is a message, whoever the author of the
  message is; \<^verbatim>\<open>handleMessage\<close> never plays the idle sound, and plays the send sound
  exactly when the submission passes the guard.
\<close>

theorem attention_sound:
  "(PlayIdleAudio \<in> set (onPartyLog isWindowVisible scrolled log) \<longleftrightarrow>
      \<not> isWindowVisible \<and> log_type log = Message) \<and>
   PlayIdleAudio \<notin> set (handleMessage env) \<and>
   (PlaySendAudio \<in> set (handleMessage env) \<longleftrightarrow> isSubmittable env)"
  by (auto simp: onPartyLog_def handleMessage_def split: sum.splits)

theorem attention_sound_witness:
  "PlayIdleAudio \<in> set (onPartyLog False True (messageLog 12 userU2 ''hey'')) \<and>
   PlayIdleAudio \<notin> set (onPartyLog True True (messageLog 12 userU2 ''hey'')) \<and>
   PlayIdleAudio \<notin> set (onPartyLog False True (activityLog 13 userA)) \<and>
   PlayIdleAudio \<notin> set (handleMessage sampleEnv) \<and>
   PlaySendAudio \<in> set (handleMessage sampleEnv)"
  using attention_sound [of False True "messageLog 12 userU2 ''hey''" sampleEnv]
    attention_sound [of True True "messageLog 12 userU2 ''hey''" sampleEnv]
    attention_sound [of False True "activityLog 13 userA" sampleEnv]
  by (simp add: sample_fields sampleEnv_def)

text \<open>
  A message of the user himself that reaches the handler while the window is not
  visible plays the idle sound: the handler does not look at the author.
\<close>

theorem own_message_plays_idle_audio:
  "isOwnMessage (auth_data sampleEnv) (messageLog 20 userU1 ''hello'') \<and>
   PlayIdleAudio \<in> set (onPartyLog False True (messageLog 20 userU1 ''hello''))"
  by (simp add: sampleEnv_def isOwnMessage_def sample_fields onPartyLog_def)

section \<open>The broadcast event\<close>

lemma nat_decimal_small: "n < 10 \<Longrightarrow> nat_decimal n = [digit_char n]"
  by (subst nat_decimal.simps) simp

lemma nat_decimal_large:
  "\<not> n < 10 \<Longrightarrow> nat_decimal n = nat_decimal (n div 10) @ [digit_char (n mod 10)]"
  by (subst nat_decimal.simps) simp

lemma digit_char_inj: "a < 10 \<Longrightarrow> b < 10 \<Longrightarrow> digit_char a = digit_char b \<Longrightarrow> a = b"
proof -
  assume a: "a < 10" and b: "b < 10" and e: "digit_char a = digit_char b"
  from e have "(of_char (digit_char a) :: nat) = of_char (digit_char b)" by simp
  with a b show ?thesis by (simp add: digit_char_def)
qed

lemma nat_decimal_not_Nil: "nat_decimal n \<noteq> []"
  by (cases "n < 10") (simp_all add: nat_decimal_small nat_decimal_large)

lemma nat_decimal_inj: "nat_decimal m = nat_decimal n \<Longrightarrow> m = n"
proof (induction m arbitrary: n rule: nat_decimal.induct)
  case (1 m)
  show ?case
  proof (cases "m < 10")
    case True
    then have m: "nat_decimal m = [digit_char m]" by (rule nat_decimal_small)
    show ?thesis
    proof (cases "n < 10")
      case n: True
      then have "nat_decimal n = [digit_char n]" by (rule nat_decimal_small)
      with m "1.prems" True n show ?thesis by (auto dest: digit_char_inj)
    next
      case False
      then have "nat_decimal n = nat_decimal (n div 10) @ [digit_char (n mod 10)]"
        by (rule nat_decimal_large)
      with m "1.prems" show ?thesis by (simp add: nat_decimal_not_Nil)
    qed
  next
    case False
    then have m: "nat_decimal m = nat_decimal (m div 10) @ [digit_char (m mod 10)]"
      by (rule nat_decimal_large)
    show ?thesis
    proof (cases "n < 10")
      case True
      then have "nat_decimal n = [digit_char n]" by (rule nat_decimal_small)
      with m "1.prems" show ?thesis
        using nat_decimal_not_Nil [of "m div 10"] by auto
    next
      case n: False
      then have "nat_decimal n = nat_decimal (n div 10) @ [digit_char (n mod 10)]"
        by (rule nat_decimal_large)
      with m "1.prems" have eq: "nat_decimal (m div 10) = nat_decimal (n div 10)"
        "digit_char (m mod 10) = digit_char (n mod 10)" by simp_all
      from "1.IH" [OF False eq(1)] have "m div 10 = n div 10" .
      moreover from eq(2) have "m mod 10 = n mod 10"
        by (rule digit_char_inj [rotated 2]) simp_all
      ultimately show ?thesis by (metis div_mult_mod_eq)
    qed
  qed
qed

lemma nat_decimal_digits: "c \<in> set (nat_decimal n) \<Longrightarrow> \<exists>d<10. c = digit_char d"
proof (induction n rule: nat_decimal.induct)
  case (1 n)
  show ?case
  proof (cases "n < 10")
    case True
    with "1.prems" show ?thesis by (auto simp: nat_decimal_small)
  next
    case False
    with "1.prems" "1.IH" show ?thesis
      by (auto simp: nat_decimal_large intro: exI [of _ "n mod 10"])
  qed
qed

lemma minus_not_digit: "d < 10 \<Longrightarrow> digit_char d \<noteq> CHR ''-''"
proof
  assume d: "d < 10" and e: "digit_char d = CHR ''-''"
  from e have "(of_char (digit_char d) :: nat) = of_char (CHR ''-'')" by simp
  with d show False by (simp add: digit_char_def)
qed

lemma nat_decimal_no_minus: "nat_decimal n \<noteq> CHR ''-'' # s"
proof
  assume e: "nat_decimal n = CHR ''-'' # s"
  then have "CHR ''-'' \<in> set (nat_decimal n)" by simp
  from nat_decimal_digits [OF this] show False by (auto dest: minus_not_digit)
qed

lemma int_decimal_inj: "int_decimal i = int_decimal j \<Longrightarrow> i = j"
proof (cases "i < 0"; cases "j < 0")
  assume "int_decimal i = int_decimal j" "i < 0" "j < 0"
  then have "nat (- i) = nat (- j)" by (auto simp: int_decimal_def dest: nat_decimal_inj)
  with \<open>i < 0\<close> \<open>j < 0\<close> show ?thesis by simp
next
  assume "int_decimal i = int_decimal j" "i < 0" "\<not> j < 0"
  then show ?thesis by (simp add: int_decimal_def nat_decimal_no_minus [symmetric])
next
  assume "int_decimal i = int_decimal j" "\<not> i < 0" "j < 0"
  then show ?thesis by (simp add: int_decimal_def nat_decimal_no_minus)
next
  assume "int_decimal i = int_decimal j" "\<not> i < 0" "\<not> j < 0"
  then have "nat i = nat j" by (auto simp: int_decimal_def dest: nat_decimal_inj)
  with \<open>\<not> i < 0\<close> \<open>\<not> j < 0\<close> show ?thesis by simp
qed

lemma broadcastOn_per_party:
  assumes "party_key (party ev) = PInt i" "party_key (party ev') = PInt j"
  shows "broadcastOn ev = broadcastOn ev' \<longleftrightarrow> i = j"
  using assms by (auto simp: broadcastOn_def dest: int_decimal_inj)

lemma sample_channel: "broadcastOn sampleEvent = PrivateChannel ''party.42''"
  by code_simp

text \<open>
  C6, as the code has it. For every party the event is broadcast on the private channel
  of the name \<^verbatim>\<open>party.\<close> followed by the id of the party, under the name \<^verbatim>\<open>state\<close>; its
  payload has the single field \<^verbatim>\<open>state\<close>, and the value of that field has exactly the
  fields \<^verbatim>\<open>is_playing\<close> and \<^verbatim>\<open>current_time\<close>, with the values of the party.
\<close>

theorem PartyState_broadcast:
  "broadcastOn ev = PrivateChannel (''party.'' @ php_strval (party_key (party ev))) \<and>
   broadcastAs ev = ''state'' \<and>
   map fst (broadcastWith ev) = [''state''] \<and>
   map_of (broadcastWith ev) ''state'' =
     Some (PArray [(''is_playing'', is_playing (party ev)),
                   (''current_time'', current_time (party ev))])"
  by (simp add: broadcastOn_def broadcastAs_def broadcastWith_def)

text \<open>
  The payload of the sample event: its only field is \<^verbatim>\<open>state\<close>; \<^verbatim>\<open>is_playing\<close> and
  \<^verbatim>\<open>current_time\<close> are no fields of the payload itself.
\<close>

theorem PartyState_payload_nested:
  "map fst (broadcastWith sampleEvent) = [''state''] \<and>
   map_of (broadcastWith sampleEvent) ''is_playing'' = None \<and>
   map_of (broadcastWith sampleEvent) ''current_time'' = None"
  by (simp add: broadcastWith_def)

end
